theory Spec2Isabelle
  imports Complex_Main
begin

section \<open>Host values and built-ins\<close>

text \<open>
  The streaming client (\<^verbatim>\<open>StreamingService\<close>, JavaScript) handles values produced by
  the host's \<^verbatim>\<open>JSON.parse\<close>. A parsed value is any JSON value; reading a missing
  property yields \<^verbatim>\<open>undefined\<close>. Numbers are never inspected by the service and
  are kept as rationals. An object is its list of own properties in enumeration order.
\<close>

datatype jsval =
    JUndefined
  | JNull
  | JBool bool
  | JNum rat
  | JStr string
  | JArr "jsval list"
  | JObj "(string \<times> jsval) list"

text \<open>
  \<^verbatim>\<open>data.type\<close> throws a TypeError exactly when \<^verbatim>\<open>data\<close> is
  \<^verbatim>\<open>null\<close> or \<^verbatim>\<open>undefined\<close>.
\<close>

fun nullish :: "jsval \<Rightarrow> bool" where
  "nullish JUndefined = True"
| "nullish JNull = True"
| "nullish v = False"

text \<open>
  Property read on a value that is not nullish, for a property name that no built-in
  prototype defines (the service reads only \<^verbatim>\<open>type\<close> and \<^verbatim>\<open>data\<close>):
  an object yields its own property or \<^verbatim>\<open>undefined\<close>, every other value
  \<^verbatim>\<open>undefined\<close>.
\<close>

fun js_get :: "jsval \<Rightarrow> string \<Rightarrow> jsval" where
  "js_get (JObj ps) k = (case map_of ps k of None \<Rightarrow> JUndefined | Some v \<Rightarrow> v)"
| "js_get v k = JUndefined"

text \<open>Decimal rendering of a non-negative integer, as a template literal renders it.\<close>

definition digit_char :: "nat \<Rightarrow> char" where
  "digit_char d = ''0123456789'' ! d"

function show_nat :: "nat \<Rightarrow> string" where
  "show_nat n = (if n < 10 then [digit_char n] else show_nat (n div 10) @ [digit_char (n mod 10)])"
  by pat_completeness auto
termination
  by (relation "measure id") auto

declare show_nat.simps [simp del]

text \<open>
  Object spread \<^verbatim>\<open>{...data}\<close> copies the own enumerable properties: those of an
  object, the indexed elements of an array, the indexed characters of a string, and nothing
  for the other values (including \<^verbatim>\<open>null\<close>).
\<close>

fun enumerable_own :: "jsval \<Rightarrow> (string \<times> jsval) list" where
  "enumerable_own (JObj ps) = ps"
| "enumerable_own (JArr xs) = zip (map show_nat [0..<length xs]) xs"
| "enumerable_own (JStr s) = zip (map show_nat [0..<length s]) (map (\<lambda>c. JStr [c]) s)"
| "enumerable_own v = []"

text \<open>Defining a property in an object literal: overwrite in place, or append.\<close>

fun define_prop :: "string \<Rightarrow> jsval \<Rightarrow> (string \<times> jsval) list \<Rightarrow> (string \<times> jsval) list" where
  "define_prop k v [] = [(k, v)]"
| "define_prop k v (p # ps) = (if fst p = k then (k, v) # ps else p # define_prop k v ps)"

text \<open>\<^verbatim>\<open>String.prototype.startsWith\<close> and \<^verbatim>\<open>split('\n')\<close>.\<close>

definition startsWith :: "string \<Rightarrow> string \<Rightarrow> bool" where
  "startsWith s p = (take (length p) s = p)"

fun split_nl :: "string \<Rightarrow> string list" where
  "split_nl [] = [[]]"
| "split_nl (c # cs) =
     (if c = CHR 0x0A then [] # split_nl cs
      else (case split_nl cs of [] \<Rightarrow> [[c]] | l # ls \<Rightarrow> (c # l) # ls))"

text \<open>
  \<^verbatim>\<open>Array.prototype.slice(start)\<close> for an integer \<open>start\<close>: a negative start
  counts from the end, and both are clamped to the array.
\<close>

definition slice :: "int \<Rightarrow> 'a list \<Rightarrow> 'a list" where
  "slice start xs =
     (let len = int (length xs);
          k = (if start < 0 then max (len + start) 0 else min start len)
      in drop (nat k) xs)"

section \<open>The service object\<close>

type_synonym BufferedEvent = "(string \<times> jsval) list"

record StreamingService =
  eventSource :: "nat option"
  websocket :: "nat option"
  reconnectAttempts :: nat
  maxReconnectAttempts :: nat
  buffer :: "BufferedEvent list"
  maxBufferSize :: nat

definition constructor :: StreamingService where
  "constructor =
     \<lparr> eventSource = None, websocket = None, reconnectAttempts = 0,
       maxReconnectAttempts = 5, buffer = [], maxBufferSize = 1000 \<rparr>"

text \<open>
  \<^verbatim>\<open>addToBuffer(data)\<close>: push \<^verbatim>\<open>{...data, timestamp: new Date().toISOString()}\<close>,
  then shift once if the buffer is longer than \<^verbatim>\<open>maxBufferSize\<close>. The clock reading is
  the argument \<open>now\<close>.
\<close>

definition stamped :: "string \<Rightarrow> jsval \<Rightarrow> BufferedEvent" where
  "stamped now data = define_prop ''timestamp'' (JStr now) (enumerable_own data)"

definition addToBuffer :: "string \<Rightarrow> jsval \<Rightarrow> StreamingService \<Rightarrow> StreamingService" where
  "addToBuffer now data s =
     (let pushed = buffer s @ [stamped now data]
      in s\<lparr>buffer := (if length pushed > maxBufferSize s then tl pushed else pushed)\<rparr>)"

text \<open>
  \<^verbatim>\<open>getRecentBuffer(n = 10)\<close> is \<^verbatim>\<open>this.buffer.slice(-n)\<close>; \<open>None\<close> is the
  omitted argument.
\<close>

definition getRecentBuffer :: "int option \<Rightarrow> StreamingService \<Rightarrow> BufferedEvent list" where
  "getRecentBuffer n s = slice (- (case n of None \<Rightarrow> 10 | Some k \<Rightarrow> k)) (buffer s)"

section \<open>Effects and the host\<close>

text \<open>
  What the service does to the outside is recorded in order: the POST of
  \<^verbatim>\<open>/api/chat/stream\<close>, the caller's three callbacks, socket construction, send and
  close, and timers with their delay in milliseconds. Console logging is not recorded.
  The callbacks are the caller's: a call is recorded with its argument, what the callback
  does in turn is not part of a run, and callbacks are taken not to throw.
\<close>

datatype effect =
    fetch
  | onMessage jsval
  | onError jsval
  | onComplete jsval
  | WebSocket_new nat
  | WebSocket_send nat
  | WebSocket_close nat
  | EventSource_close nat
  | setTimeout nat

text \<open>
  The host supplies \<^verbatim>\<open>JSON.parse\<close> (\<open>None\<close> when it throws a SyntaxError) and
  the clock (\<open>Date_now h i\<close> is the \<open>i\<close>-th reading of
  \<^verbatim>\<open>new Date().toISOString()\<close>).
\<close>

record host =
  JSON_parse :: "string \<Rightarrow> jsval option"
  Date_now :: "nat \<Rightarrow> string"

record run =
  svc :: StreamingService
  clock_reads :: nat
  effects :: "effect list"

definition fresh :: run where
  "fresh = \<lparr> svc = constructor, clock_reads = 0, effects = [] \<rparr>"

definition emit :: "effect \<Rightarrow> run \<Rightarrow> run" where
  "emit e st = st\<lparr>effects := effects st @ [e]\<rparr>"

definition this_addToBuffer :: "host \<Rightarrow> jsval \<Rightarrow> run \<Rightarrow> run" where
  "this_addToBuffer h data st =
     st\<lparr>svc := addToBuffer (Date_now h (clock_reads st)) data (svc st),
        clock_reads := Suc (clock_reads st)\<rparr>"

text \<open>
  \<^verbatim>\<open>close()\<close>: close and clear each handle that is set, then reset the attempt counter.
\<close>

definition close :: "run \<Rightarrow> run" where
  "close st =
     (let st1 = (case eventSource (svc st) of
                   None \<Rightarrow> st
                 | Some es \<Rightarrow> (emit (EventSource_close es) st)\<lparr>svc := (svc st)\<lparr>eventSource := None\<rparr>\<rparr>);
          st2 = (case websocket (svc st1) of
                   None \<Rightarrow> st1
                 | Some ws \<Rightarrow> (emit (WebSocket_close ws) st1)\<lparr>svc := (svc st1)\<lparr>websocket := None\<rparr>\<rparr>)
      in st2\<lparr>svc := (svc st2)\<lparr>reconnectAttempts := 0\<rparr>\<rparr>)"

section \<open>The SSE stream\<close>

text \<open>
  The answer of \<^verbatim>\<open>fetch\<close>: the promise rejects with a message, or resolves to a
  response with a status and a body. \<^verbatim>\<open>response.body.getReader()\<close> may throw (a
  response without body); otherwise the reader yields the decoded text of finitely many
  chunks and then either signals \<^verbatim>\<open>done\<close> or rejects.
\<close>

datatype read_end = Done | ReadFailed string

datatype body = NoReader string | Reader "string list" read_end

datatype fetch_result = Rejected string | Resolved nat body

definition ok :: "nat \<Rightarrow> bool" where
  "ok status = (200 \<le> status \<and> status \<le> 299)"

datatype 'a flow = Continue 'a | Return 'a

text \<open>The body of \<^verbatim>\<open>for (const line of lines)\<close>.\<close>

definition on_line :: "host \<Rightarrow> string \<Rightarrow> run \<Rightarrow> run flow" where
  "on_line h line st =
     (if startsWith line ''data: '' then
        (case JSON_parse h (drop 6 line) of
           None \<Rightarrow> Continue st
         | Some data \<Rightarrow>
             (let st1 = this_addToBuffer h data st in
              if nullish data then Continue st1
              else if js_get data ''type'' = JStr ''content''
                then Continue (emit (onMessage (js_get data ''data'')) st1)
              else if js_get data ''type'' = JStr ''done''
                then Return (emit (onComplete (js_get data ''data'')) st1)
              else if js_get data ''type'' = JStr ''error''
                then Return (emit (onError (js_get data ''data'')) st1)
              else Continue st1))
      else Continue st)"

fun for_lines :: "host \<Rightarrow> string list \<Rightarrow> run \<Rightarrow> run flow" where
  "for_lines h [] st = Continue st"
| "for_lines h (line # lines) st =
     (case on_line h line st of
        Continue st' \<Rightarrow> for_lines h lines st'
      | Return st' \<Rightarrow> Return st')"

text \<open>The \<^verbatim>\<open>while (true)\<close> loop over \<^verbatim>\<open>reader.read()\<close>.\<close>

fun read_loop :: "host \<Rightarrow> string list \<Rightarrow> read_end \<Rightarrow> run \<Rightarrow> run" where
  "read_loop h [] e st =
     (case e of
        Done \<Rightarrow> emit (onComplete (JStr [])) st
      | ReadFailed m \<Rightarrow> emit (onError (JStr m)) st)"
| "read_loop h (chunk # chunks) e st =
     (case for_lines h (split_nl chunk) st of
        Continue st' \<Rightarrow> read_loop h chunks e st'
      | Return st' \<Rightarrow> st')"

definition startSSEStream :: "host \<Rightarrow> fetch_result \<Rightarrow> run \<Rightarrow> run" where
  "startSSEStream h answer st =
     (let st0 = emit fetch st in
      case answer of
        Rejected m \<Rightarrow> emit (onError (JStr m)) st0
      | Resolved status b \<Rightarrow>
          if \<not> ok status then emit (onError (JStr (''HTTP error! status: '' @ show_nat status))) st0
          else (case b of
                  NoReader m \<Rightarrow> emit (onError (JStr m)) st0
                | Reader chunks e \<Rightarrow> read_loop h chunks e st0))"

section \<open>The WebSocket stream\<close>

text \<open>
  \<^verbatim>\<open>new WebSocket(url)\<close> throws with a message or yields a socket; the four handlers
  installed on it are the functions below.
\<close>

definition startWebSocketStream :: "string + nat \<Rightarrow> run \<Rightarrow> run" where
  "startWebSocketStream made st =
     (case made of
        Inl m \<Rightarrow> emit (onError (JStr m)) st
      | Inr ws \<Rightarrow> (emit (WebSocket_new ws) st)\<lparr>svc := (svc st)\<lparr>websocket := Some ws\<rparr>\<rparr>)"

definition onopen :: "run \<Rightarrow> run" where
  "onopen st =
     (let st1 = st\<lparr>svc := (svc st)\<lparr>reconnectAttempts := 0\<rparr>\<rparr> in
      case websocket (svc st1) of
        None \<Rightarrow> st1
      | Some ws \<Rightarrow> emit (WebSocket_send ws) st1)"

definition onmessage :: "host \<Rightarrow> string \<Rightarrow> run \<Rightarrow> run" where
  "onmessage h frame st =
     (case JSON_parse h frame of
        None \<Rightarrow> st
      | Some data \<Rightarrow>
          (let st1 = this_addToBuffer h data st in
           if nullish data then st1
           else if js_get data ''type'' = JStr ''content''
             then emit (onMessage (js_get data ''data'')) st1
           else if js_get data ''type'' = JStr ''done''
             then close (emit (onComplete (js_get data ''data'')) st1)
           else if js_get data ''type'' = JStr ''error''
             then emit (onError (js_get data ''data'')) st1
           else st1))"

definition onerror :: "run \<Rightarrow> run" where
  "onerror st = emit (onError (JStr ''WebSocket connection failed'')) st"

definition reconnect :: "run \<Rightarrow> run" where
  "reconnect st =
     (let st1 = st\<lparr>svc := (svc st)\<lparr>reconnectAttempts := reconnectAttempts (svc st) + 1\<rparr>\<rparr>;
          delay = min (1000 * 2 ^ reconnectAttempts (svc st1)) 16000
      in emit (setTimeout delay) st1)"

definition onclose :: "run \<Rightarrow> run" where
  "onclose st =
     (if reconnectAttempts (svc st) < maxReconnectAttempts (svc st) then reconnect st else st)"

text \<open>The function handed to \<^verbatim>\<open>setTimeout\<close> by \<^verbatim>\<open>reconnect\<close>, when it runs.\<close>

definition timeout_handler :: "host \<Rightarrow> fetch_result \<Rightarrow> string + nat \<Rightarrow> run \<Rightarrow> run" where
  "timeout_handler h answer made st =
     (if eventSource (svc st) \<noteq> None then startSSEStream h answer st
      else if websocket (svc st) \<noteq> None then startWebSocketStream made st
      else st)"

section \<open>A concrete host for evaluation\<close>

text \<open>
  The theorems below hold for every host. Where a run is evaluated on concrete text, the
  host is \<open>wire_host\<close>: its parser accepts exactly the wire shape
  \<^verbatim>\<open>{"type":"T","data":"D"}\<close> with \<open>T\<close> and \<open>D\<close> free of quotes, backslashes
  and control characters, where it returns what \<^verbatim>\<open>JSON.parse\<close> returns, and fails on
  everything else. It is applied below to text of that shape and to truncated objects, which
  \<^verbatim>\<open>JSON.parse\<close> rejects as well. All its clock readings fall into the same
  millisecond.
\<close>

definition plain :: "char \<Rightarrow> bool" where
  "plain c = (c \<in> set ''abcdefghijklmnopqrstuvwxyzABCDEFGHIJKLMNOPQRSTUVWXYZ0123456789 .,:;!?-_'')"

fun plain_span :: "string \<Rightarrow> (string \<times> string) option" where
  "plain_span [] = None"
| "plain_span (c # cs) =
     (if c = CHR 0x22 then Some ([], cs)
      else if plain c then (case plain_span cs of None \<Rightarrow> None | Some (t, r) \<Rightarrow> Some (c # t, r))
      else None)"

definition strip_prefix :: "string \<Rightarrow> string \<Rightarrow> string option" where
  "strip_prefix p s = (if startsWith s p then Some (drop (length p) s) else None)"

definition wire_parse :: "string \<Rightarrow> jsval option" where
  \<open>wire_parse s =
     (case strip_prefix ''{"type":"'' s of
        None \<Rightarrow> None
      | Some r1 \<Rightarrow>
          (case plain_span r1 of
             None \<Rightarrow> None
           | Some (t, r2) \<Rightarrow>
               (case strip_prefix '',"data":"'' r2 of
                  None \<Rightarrow> None
                | Some r3 \<Rightarrow>
                    (case plain_span r3 of
                       None \<Rightarrow> None
                     | Some (d, r4) \<Rightarrow>
                         if r4 = ''}'' then Some (JObj [(''type'', JStr t), (''data'', JStr d)])
                         else None))))\<close>

definition wire_host :: host where
  "wire_host = \<lparr> JSON_parse = wire_parse, Date_now = (\<lambda>i. ''1970-01-01T00:00:00.000Z'') \<rparr>"

section \<open>Operations and their sequences\<close>

text \<open>
  Everything that can happen to a service object: a call of a public method, one of the four
  socket handlers firing, or the reconnect timer running. \<^verbatim>\<open>getRecentBuffer\<close> only
  reads and is not listed.
\<close>

datatype operation =
    Call_startSSEStream fetch_result
  | Call_startWebSocketStream "string + nat"
  | Call_reconnect
  | Call_addToBuffer jsval
  | Call_close
  | Fire_onopen
  | Fire_onmessage string
  | Fire_onerror
  | Fire_onclose
  | Fire_timeout fetch_result "string + nat"

fun perform :: "host \<Rightarrow> operation \<Rightarrow> run \<Rightarrow> run" where
  "perform h (Call_startSSEStream answer) st = startSSEStream h answer st"
| "perform h (Call_startWebSocketStream made) st = startWebSocketStream made st"
| "perform h Call_reconnect st = reconnect st"
| "perform h (Call_addToBuffer data) st = this_addToBuffer h data st"
| "perform h Call_close st = close st"
| "perform h Fire_onopen st = onopen st"
| "perform h (Fire_onmessage frame) st = onmessage h frame st"
| "perform h Fire_onerror st = onerror st"
| "perform h Fire_onclose st = onclose st"
| "perform h (Fire_timeout answer made) st = timeout_handler h answer made st"

fun outcome :: "'a flow \<Rightarrow> 'a" where
  "outcome (Continue x) = x"
| "outcome (Return x) = x"

text \<open>
  A property of the service object is kept when the four kinds of assignment the code makes
  keep it: appending to the buffer, setting the socket handle, setting the attempt counter,
  and clearing the event-source handle.
\<close>

definition kept :: "(StreamingService \<Rightarrow> bool) \<Rightarrow> bool" where
  "kept P =
     ((\<forall>now data s. P s \<longrightarrow> P (addToBuffer now data s)) \<and>
      (\<forall>s w. P s \<longrightarrow> P (s\<lparr>websocket := w\<rparr>)) \<and>
      (\<forall>s n. P s \<longrightarrow> P (s\<lparr>reconnectAttempts := n\<rparr>)) \<and>
      (\<forall>s. P s \<longrightarrow> P (s\<lparr>eventSource := None\<rparr>)))"

text \<open>Appending a list of events, each with the clock reading taken at its append.\<close>

definition append_all :: "(string \<times> jsval) list \<Rightarrow> StreamingService \<Rightarrow> StreamingService" where
  "append_all tes s = fold (\<lambda>(now, data). addToBuffer now data) tes s"

text \<open>
  An event as the server sends it: an object that does not itself carry a
  \<^verbatim>\<open>timestamp\<close> property (the one the buffer entry adds).
\<close>

fun event_object :: "jsval \<Rightarrow> bool" where
  "event_object (JObj ps) = (''timestamp'' \<notin> set (map fst ps))"
| "event_object v = False"

definition backoff :: "nat list" where
  "backoff = [2000, 4000, 8000, 16000, 16000]"

section \<open>Lines, chunks and events\<close>

text \<open>
  The server frames an event as \<^verbatim>\<open>data: <json>\n\<close>. A chunk made of whole lines is
  the concatenation of lines, each followed by a newline.
\<close>

definition data_line :: "string \<Rightarrow> string" where
  "data_line json = ''data: '' @ json"

definition framed :: "string \<Rightarrow> string" where
  "framed json = ''data: '' @ json @ [CHR 0x0A]"

definition whole_lines :: "string list \<Rightarrow> string" where
  "whole_lines ls = concat (map (\<lambda>l. l @ [CHR 0x0A]) ls)"

text \<open>The event a line carries, if the loop body parses one from it.\<close>

definition event_of :: "host \<Rightarrow> string \<Rightarrow> jsval option" where
  "event_of h line = (if startsWith line ''data: '' then JSON_parse h (drop 6 line) else None)"

definition terminal :: "jsval \<Rightarrow> bool" where
  "terminal e = (js_get e ''type'' = JStr ''done'' \<or> js_get e ''type'' = JStr ''error'')"

definition observes_terminal :: "host \<Rightarrow> string \<Rightarrow> bool" where
  "observes_terminal h line = (case event_of h line of None \<Rightarrow> False | Some e \<Rightarrow> terminal e)"

definition payload :: "jsval \<Rightarrow> jsval list" where
  "payload e = (if js_get e ''type'' = JStr ''content'' then [js_get e ''data''] else [])"

definition content_of :: "host \<Rightarrow> string \<Rightarrow> jsval list" where
  "content_of h line = (case event_of h line of None \<Rightarrow> [] | Some e \<Rightarrow> payload e)"

text \<open>
  A malformed line has the prefix and fails to parse. Removing the malformed lines of a chunk
  rejoins the remaining lines with newlines (\<^verbatim>\<open>join('\n')\<close>).
\<close>

definition malformed :: "host \<Rightarrow> string \<Rightarrow> bool" where
  "malformed h line = (startsWith line ''data: '' \<and> JSON_parse h (drop 6 line) = None)"

fun join_nl :: "string list \<Rightarrow> string" where
  "join_nl [] = []"
| "join_nl [l] = l"
| "join_nl (l # ls) = l @ CHR 0x0A # join_nl ls"

definition without_malformed :: "host \<Rightarrow> string \<Rightarrow> string" where
  "without_malformed h chunk = join_nl (filter (\<lambda>l. \<not> malformed h l) (split_nl chunk))"

section \<open>Concrete inputs\<close>

text \<open>Three buffered events, and a family of pairwise different events.\<close>

definition three_buffered :: StreamingService where
  "three_buffered =
     append_all
       [(''1970-01-01T00:00:00.000Z'', JObj [(''type'', JStr ''content''), (''data'', JStr ''Hel'')]),
        (''1970-01-01T00:00:00.001Z'', JObj [(''type'', JStr ''content''), (''data'', JStr ''lo'')]),
        (''1970-01-01T00:00:00.002Z'', JObj [(''type'', JStr ''done''), (''data'', JStr [])])]
       constructor"

definition numbered :: "nat \<Rightarrow> string \<times> jsval" where
  "numbered i =
     (''1970-01-01T00:00:00.000Z'',
      JObj [(''type'', JStr ''content''), (''data'', JStr (replicate i CHR ''x''))])"

definition worn :: run where
  "worn = fresh\<lparr>svc := constructor\<lparr>reconnectAttempts := 5\<rparr>\<rparr>"

section \<open>Basic facts\<close>

lemmas wire_eval =
  wire_host_def wire_parse_def strip_prefix_def startsWith_def plain_def framed_def
  startSSEStream_def on_line_def onmessage_def this_addToBuffer_def addToBuffer_def stamped_def
  emit_def close_def ok_def fresh_def constructor_def startWebSocketStream_def Let_def

lemma emit_simps:
  "effects (emit e st) = effects st @ [e]"
  "svc (emit e st) = svc st"
  "clock_reads (emit e st) = clock_reads st"
  by (simp_all add: emit_def)

lemma js_get_nullish: "nullish v \<Longrightarrow> js_get v k = JUndefined"
  by (cases v) simp_all

section \<open>Properties kept by every operation\<close>

lemma kept_emit: "P (svc st) \<Longrightarrow> P (svc (emit e st))"
  by (simp add: emit_def)

lemma kept_addToBuffer: "kept P \<Longrightarrow> P (svc st) \<Longrightarrow> P (svc (this_addToBuffer h data st))"
  by (simp add: kept_def this_addToBuffer_def)

lemma kept_close: "kept P \<Longrightarrow> P (svc st) \<Longrightarrow> P (svc (close st))"
  by (auto simp: kept_def close_def emit_def Let_def split: option.splits)

lemma kept_on_line: "kept P \<Longrightarrow> P (svc st) \<Longrightarrow> P (svc (outcome (on_line h line st)))"
  by (auto simp: on_line_def Let_def kept_emit kept_addToBuffer split: option.splits)

lemma kept_for_lines: "kept P \<Longrightarrow> P (svc st) \<Longrightarrow> P (svc (outcome (for_lines h lines st)))"
proof (induction lines arbitrary: st)
  case Nil
  then show ?case by simp
next
  case (Cons line lines)
  from kept_on_line [OF Cons.prems, of h line] Cons.IH [OF Cons.prems(1)]
  show ?case by (cases "on_line h line st") auto
qed

lemma kept_read_loop: "kept P \<Longrightarrow> P (svc st) \<Longrightarrow> P (svc (read_loop h chunks e st))"
proof (induction chunks arbitrary: st)
  case Nil
  then show ?case by (cases e) (simp_all add: kept_emit)
next
  case (Cons chunk chunks)
  from kept_for_lines [OF Cons.prems, of h "split_nl chunk"] Cons.IH [OF Cons.prems(1)]
  show ?case by (cases "for_lines h (split_nl chunk) st") auto
qed

lemma kept_startSSEStream: "kept P \<Longrightarrow> P (svc st) \<Longrightarrow> P (svc (startSSEStream h answer st))"
  by (auto simp: startSSEStream_def Let_def kept_emit kept_read_loop
      split: fetch_result.splits body.splits)

lemma kept_startWebSocketStream:
  "kept P \<Longrightarrow> P (svc st) \<Longrightarrow> P (svc (startWebSocketStream made st))"
  by (auto simp: startWebSocketStream_def kept_def emit_def split: sum.splits)

lemma kept_reconnect: "kept P \<Longrightarrow> P (svc st) \<Longrightarrow> P (svc (reconnect st))"
  by (simp add: reconnect_def kept_def emit_def Let_def)

lemma kept_onopen: "kept P \<Longrightarrow> P (svc st) \<Longrightarrow> P (svc (onopen st))"
  by (auto simp: onopen_def kept_def emit_def Let_def split: option.splits)

lemma kept_onmessage: "kept P \<Longrightarrow> P (svc st) \<Longrightarrow> P (svc (onmessage h frame st))"
  by (auto simp: onmessage_def Let_def kept_emit kept_addToBuffer kept_close split: option.splits)

lemma kept_perform: "kept P \<Longrightarrow> P (svc st) \<Longrightarrow> P (svc (perform h op st))"
  by (cases op)
    (simp_all add: kept_startSSEStream kept_startWebSocketStream kept_reconnect
      kept_addToBuffer kept_close kept_onopen kept_onmessage kept_emit onerror_def
      onclose_def timeout_handler_def)

lemma kept_fold: "kept P \<Longrightarrow> P (svc st) \<Longrightarrow> P (svc (fold (perform h) ops st))"
  by (induction ops arbitrary: st) (simp_all add: kept_perform)

lemma kept_eventSource: "kept (\<lambda>s. eventSource s = None)"
  by (simp add: kept_def addToBuffer_def Let_def)

lemma kept_bound: "kept (\<lambda>s. maxBufferSize s = 1000 \<and> length (buffer s) \<le> 1000)"
  by (auto simp: kept_def addToBuffer_def Let_def)

lemma kept_maximum: "kept (\<lambda>s. maxReconnectAttempts s = 5)"
  by (simp add: kept_def addToBuffer_def Let_def)

section \<open>HTTP failure\<close>

text \<open>
  Claim C7. For every response status outside 200..299, \<^verbatim>\<open>startSSEStream\<close> issues its
  one request and then calls \<^verbatim>\<open>onError\<close> once with
  \<^verbatim>\<open>HTTP error! status: \<close> followed by the status in decimal; nothing else happens: no
  \<^verbatim>\<open>onMessage\<close>, no \<^verbatim>\<open>onComplete\<close>, no second request, no timer, and the
  service object (buffer included) is as it was.
\<close>

theorem non_2xx_reports_once:
  "\<not> ok status \<Longrightarrow>
     startSSEStream h (Resolved status b) st
       = st\<lparr>effects := effects st @
              [fetch, onError (JStr (''HTTP error! status: '' @ show_nat status))]\<rparr>"
  by (simp add: startSSEStream_def emit_def)

text \<open>Status 500 on a fresh service: the message is \<^verbatim>\<open>HTTP error! status: 500\<close>.\<close>

theorem non_2xx_reports_once_witness:
  "\<not> ok 500 \<and>
   effects (startSSEStream wire_host (Resolved 500 (Reader [] Done)) fresh)
     = [fetch, onError (JStr ''HTTP error! status: 500'')] \<and>
   buffer (svc (startSSEStream wire_host (Resolved 500 (Reader [] Done)) fresh)) = []"
proof -
  have h: "\<not> ok 500"
    by (simp add: ok_def)
  have s: "show_nat 500 = ''500''"
    by (simp add: show_nat.simps digit_char_def)
  show ?thesis
    using h non_2xx_reports_once [OF h, of wire_host "Reader [] Done" fresh]
    by (simp add: s fresh_def constructor_def)
qed

section \<open>Reading the buffer\<close>

lemma slice_negative:
  "0 < n \<Longrightarrow> slice (- n) xs = drop (length xs - nat n) xs"
  by (auto simp: slice_def Let_def max_def nat_diff_distrib' intro: arg_cong2 [where f = drop])

lemma getRecentBuffer_positive:
  "0 < n \<Longrightarrow> getRecentBuffer (Some n) s = drop (length (buffer s) - nat n) (buffer s)"
  by (simp add: getRecentBuffer_def slice_negative)

lemma getRecentBuffer_short:
  "0 < n \<Longrightarrow> int (length (buffer s)) \<le> n \<Longrightarrow> getRecentBuffer (Some n) s = buffer s"
  by (simp add: getRecentBuffer_positive)

lemma getRecentBuffer_default:
  "getRecentBuffer None s = drop (length (buffer s) - 10) (buffer s)"
  using slice_negative [of 10 "buffer s"] by (simp add: getRecentBuffer_def)

lemma getRecentBuffer_five_of_three:
  "getRecentBuffer (Some 5) three_buffered = buffer three_buffered"
  by (simp add: getRecentBuffer_def slice_def three_buffered_def append_all_def addToBuffer_def
      stamped_def constructor_def Let_def)

text \<open>
  Claim C9. For every count \<open>n\<close>, \<^verbatim>\<open>getRecentBuffer(n)\<close> returns the last \<open>n\<close>
  entries. For positive \<open>n\<close> the lemmas above show it. For \<open>n = 0\<close> the code computes
  \<^verbatim>\<open>slice(-0)\<close>, which is \<^verbatim>\<open>slice(0)\<close>: with three entries buffered it returns all
  three, where the last zero entries are none.
\<close>

theorem getRecentBuffer_zero_returns_all:
  "getRecentBuffer (Some 0) three_buffered =
     [[(''type'', JStr ''content''), (''data'', JStr ''Hel''),
       (''timestamp'', JStr ''1970-01-01T00:00:00.000Z'')],
      [(''type'', JStr ''content''), (''data'', JStr ''lo''),
       (''timestamp'', JStr ''1970-01-01T00:00:00.001Z'')],
      [(''type'', JStr ''done''), (''data'', JStr []),
       (''timestamp'', JStr ''1970-01-01T00:00:00.002Z'')]]"
  by (simp add: getRecentBuffer_def slice_def three_buffered_def append_all_def addToBuffer_def
      stamped_def constructor_def Let_def)

section \<open>Reconnect backoff\<close>

lemma onclose_below:
  "reconnectAttempts (svc st) < maxReconnectAttempts (svc st) \<Longrightarrow>
     onclose st =
       st\<lparr>svc := (svc st)\<lparr>reconnectAttempts := reconnectAttempts (svc st) + 1\<rparr>,
          effects := effects st @
            [setTimeout (min (1000 * 2 ^ (reconnectAttempts (svc st) + 1)) 16000)]\<rparr>"
  by (simp add: onclose_def reconnect_def emit_def Let_def)

lemma onclose_exhausted:
  "maxReconnectAttempts (svc st) \<le> reconnectAttempts (svc st) \<Longrightarrow> onclose st = st"
  by (simp add: onclose_def)

lemma backoff_nth:
  "n < 5 \<Longrightarrow> backoff ! n = min (1000 * 2 ^ (n + 1)) 16000"
proof -
  assume "n < 5"
  then consider "n = 0" | "n = 1" | "n = 2" | "n = 3" | "n = 4"
    by linarith
  then show ?thesis
    by cases (simp_all add: backoff_def)
qed

lemma closes_upto:
  "n \<le> 5 \<Longrightarrow> (onclose ^^ n) fresh =
     fresh\<lparr>svc := constructor\<lparr>reconnectAttempts := n\<rparr>,
           effects := map setTimeout (take n backoff)\<rparr>"
proof (induction n)
  case 0
  then show ?case by (simp add: fresh_def constructor_def)
next
  case (Suc n)
  then have n: "n < 5" and ih: "(onclose ^^ n) fresh =
     fresh\<lparr>svc := constructor\<lparr>reconnectAttempts := n\<rparr>,
           effects := map setTimeout (take n backoff)\<rparr>"
    by simp_all
  have t: "take (Suc n) backoff = take n backoff @ [backoff ! n]"
  proof (rule take_Suc_conv_app_nth)
    show "n < length backoff" using n by (simp add: backoff_def)
  qed
  have below: "reconnectAttempts (svc ((onclose ^^ n) fresh))
      < maxReconnectAttempts (svc ((onclose ^^ n) fresh))"
    using n by (simp add: ih constructor_def)
  show ?case
    using onclose_below [OF below] n
    by (simp add: ih t backoff_nth)
qed

lemma closes_beyond:
  "(onclose ^^ (5 + k)) fresh = (onclose ^^ 5) fresh"
proof (induction k)
  case 0
  then show ?case by simp
next
  case (Suc k)
  have "onclose ((onclose ^^ 5) fresh) = (onclose ^^ 5) fresh"
    by (rule onclose_exhausted) (simp add: closes_upto constructor_def)
  moreover have "(onclose ^^ (5 + Suc k)) fresh = onclose ((onclose ^^ (5 + k)) fresh)"
    by (simp only: add_Suc_right funpow.simps o_apply)
  ultimately show ?case using Suc by simp
qed

lemma closes_effects:
  "effects ((onclose ^^ n) fresh) = map setTimeout (take n backoff)"
proof (cases "n \<le> 5")
  case True
  then show ?thesis by (simp add: closes_upto)
next
  case False
  then obtain k where "n = 5 + k"
    by (metis add_diff_inverse_nat not_le_imp_less not_less_iff_gr_or_eq less_imp_le_nat le_Suc_ex)
  then show ?thesis
    by (simp only: closes_beyond) (simp add: closes_upto backoff_def)
qed

text \<open>
  Claim C5. The maximum stays 5 whatever operations run. With that maximum, a close event
  below it increments the attempt counter to \<open>k\<close> and then schedules one timer of
  \<open>min (1000 * 2 ^ k) 16000\<close> milliseconds; at or above the maximum it does nothing at
  all (no timer, no callback, no change). Close events in a row on a new service therefore
  schedule the delays 2000, 4000, 8000, 16000, 16000 and never a sixth.
\<close>

theorem reconnect_backoff:
  "maxReconnectAttempts (svc (fold (perform h) ops fresh)) = 5 \<and>
   (maxReconnectAttempts (svc st) = 5 \<and> reconnectAttempts (svc st) < 5 \<longrightarrow>
      onclose st =
        st\<lparr>svc := (svc st)\<lparr>reconnectAttempts := reconnectAttempts (svc st) + 1\<rparr>,
           effects := effects st @
             [setTimeout (min (1000 * 2 ^ (reconnectAttempts (svc st) + 1)) 16000)]\<rparr>) \<and>
   (maxReconnectAttempts (svc st) = 5 \<and> 5 \<le> reconnectAttempts (svc st) \<longrightarrow>
      onclose st = st) \<and>
   effects ((onclose ^^ n) fresh) = map setTimeout (take n [2000, 4000, 8000, 16000, 16000])"
proof -
  have "maxReconnectAttempts (svc (fold (perform h) ops fresh)) = 5"
    using kept_fold [OF kept_maximum, of fresh h ops] by (simp add: fresh_def constructor_def)
  then show ?thesis
    using onclose_below [of st] onclose_exhausted [of st] closes_effects [of n]
    by (simp add: backoff_def)
qed

text \<open>
  The first close on a new service waits 2000 ms; a service at 5 attempts ignores the close;
  six closes in a row leave five timers.
\<close>

theorem reconnect_backoff_witness:
  "maxReconnectAttempts (svc fresh) = 5 \<and> reconnectAttempts (svc fresh) < 5 \<and>
   effects (onclose fresh) = [setTimeout 2000] \<and>
   reconnectAttempts (svc (onclose fresh)) = 1 \<and>
   maxReconnectAttempts (svc worn) = 5 \<and> 5 \<le> reconnectAttempts (svc worn) \<and>
   onclose worn = worn \<and>
   effects ((onclose ^^ 6) fresh) = map setTimeout [2000, 4000, 8000, 16000, 16000]"
proof -
  have f: "maxReconnectAttempts (svc fresh) = 5" "reconnectAttempts (svc fresh) < 5"
    by (simp_all add: fresh_def constructor_def)
  have w: "maxReconnectAttempts (svc worn) = 5" "5 \<le> reconnectAttempts (svc worn)"
    by (simp_all add: worn_def fresh_def constructor_def)
  from reconnect_backoff [of wire_host "[]" fresh 6] f
  have 1: "onclose fresh =
      fresh\<lparr>svc := (svc fresh)\<lparr>reconnectAttempts := reconnectAttempts (svc fresh) + 1\<rparr>,
            effects := effects fresh @
              [setTimeout (min (1000 * 2 ^ (reconnectAttempts (svc fresh) + 1)) 16000)]\<rparr>"
    and 2: "effects ((onclose ^^ 6) fresh) = map setTimeout (take 6 [2000, 4000, 8000, 16000, 16000])"
    by blast+
  from reconnect_backoff [of wire_host "[]" worn 0] w
  have 3: "onclose worn = worn"
    by blast
  have 4: "effects (onclose fresh) = [setTimeout 2000]"
    "reconnectAttempts (svc (onclose fresh)) = 1"
    by (simp_all add: 1) (simp_all add: fresh_def constructor_def)
  from f w 2 3 4 show ?thesis
    by simp
qed

section \<open>The event-source handle\<close>

text \<open>
  Claim C10. \<^verbatim>\<open>eventSource\<close> is null after construction; every operation leaves it null
  when it was null, so it is null after any sequence of operations on a new service. In such a
  state the reconnect timer never takes its SSE branch: it starts the WebSocket stream again
  when a socket handle is set, and does nothing otherwise.
\<close>

theorem eventSource_never_set:
  "eventSource constructor = None \<and>
   (eventSource (svc st) = None \<longrightarrow> eventSource (svc (perform h op st)) = None) \<and>
   eventSource (svc (fold (perform h) ops fresh)) = None \<and>
   (eventSource (svc st) = None \<longrightarrow>
      timeout_handler h answer made st =
        (case websocket (svc st) of None \<Rightarrow> st | Some ws \<Rightarrow> startWebSocketStream made st))"
proof -
  have c: "eventSource constructor = None"
    by (simp add: constructor_def)
  have step: "eventSource (svc st) = None \<longrightarrow> eventSource (svc (perform h op st)) = None"
    using kept_perform [OF kept_eventSource, of st h op] by simp
  have reach: "eventSource (svc (fold (perform h) ops fresh)) = None"
    using kept_fold [OF kept_eventSource, of fresh h ops] c by (simp add: fresh_def)
  have timer: "eventSource (svc st) = None \<longrightarrow>
      timeout_handler h answer made st =
        (case websocket (svc st) of None \<Rightarrow> st | Some ws \<Rightarrow> startWebSocketStream made st)"
    by (simp add: timeout_handler_def split: option.splits)
  from c step reach timer show ?thesis by simp
qed

text \<open>
  After a socket was opened and closed, the timer opens the next socket whatever the SSE
  endpoint would answer.
\<close>

theorem eventSource_never_set_witness:
  "eventSource (svc (startWebSocketStream (Inr 0) fresh)) = None \<and>
   eventSource (svc (perform wire_host Fire_onclose (startWebSocketStream (Inr 0) fresh))) = None \<and>
   eventSource (svc (fold (perform wire_host)
      [Call_startWebSocketStream (Inr 0), Fire_onclose, Call_close] fresh)) = None \<and>
   timeout_handler wire_host (Resolved 200 (Reader [] Done)) (Inr 1)
      (startWebSocketStream (Inr 0) fresh)
     = startWebSocketStream (Inr 1) (startWebSocketStream (Inr 0) fresh)"
proof -
  let ?st = "startWebSocketStream (Inr 0) fresh"
  have n: "eventSource (svc ?st) = None"
    by (simp add: startWebSocketStream_def emit_def fresh_def constructor_def)
  have w: "websocket (svc ?st) = Some 0"
    by (simp add: startWebSocketStream_def emit_def fresh_def constructor_def)
  from eventSource_never_set [of ?st wire_host Fire_onclose
      "[Call_startWebSocketStream (Inr 0), Fire_onclose, Call_close]"
      "Resolved 200 (Reader [] Done)" "Inr 1"] n w
  show ?thesis
    by simp
qed

section \<open>The bounded buffer\<close>

lemma define_prop_fresh: "k \<notin> set (map fst ps) \<Longrightarrow> define_prop k v ps = ps @ [(k, v)]"
  by (induction ps) auto

lemma stamped_object:
  "event_object d \<Longrightarrow> \<exists>ps. d = JObj ps \<and> stamped now d = ps @ [(''timestamp'', JStr now)]"
  by (cases d) (simp_all add: stamped_def define_prop_fresh)

lemma stamped_inj:
  "event_object d \<Longrightarrow> event_object d' \<Longrightarrow> stamped now d = stamped now' d' \<Longrightarrow> d = d'"
  using stamped_object [of d now] stamped_object [of d' now'] by auto

lemma addToBuffer_buffer:
  "length (buffer s) \<le> maxBufferSize s \<Longrightarrow> 0 < maxBufferSize s \<Longrightarrow>
     buffer (addToBuffer now data s) =
       (if length (buffer s) = maxBufferSize s then tl (buffer s) @ [stamped now data]
        else buffer s @ [stamped now data])"
  by (cases "buffer s") (auto simp: addToBuffer_def Let_def)

lemma addToBuffer_drop:
  "maxBufferSize s = 1000 \<Longrightarrow> length (buffer s) \<le> 1000 \<Longrightarrow>
     buffer (addToBuffer now data s) =
       drop (length (buffer s) + 1 - 1000) (buffer s @ [stamped now data])"
proof (cases "length (buffer s) = 1000")
  case True
  assume "maxBufferSize s = 1000"
  with True show ?thesis
    by (cases "buffer s") (simp_all add: addToBuffer_def Let_def)
next
  case False
  assume "maxBufferSize s = 1000" "length (buffer s) \<le> 1000"
  with False show ?thesis
    by (simp add: addToBuffer_def Let_def)
qed

lemma addToBuffer_capacity: "maxBufferSize (addToBuffer now data s) = maxBufferSize s"
  by (simp add: addToBuffer_def Let_def)

lemma addToBuffer_length:
  "length (buffer s) \<le> maxBufferSize s \<Longrightarrow>
     length (buffer (addToBuffer now data s)) \<le> maxBufferSize s"
  by (auto simp: addToBuffer_def Let_def)

lemma append_all_buffer:
  "maxBufferSize s = 1000 \<Longrightarrow> length (buffer s) \<le> 1000 \<Longrightarrow>
     buffer (append_all tes s) =
       drop (length (buffer s) + length tes - 1000)
         (buffer s @ map (\<lambda>(now, data). stamped now data) tes)"
proof (induction tes arbitrary: s)
  case Nil
  then show ?case by (simp add: append_all_def)
next
  case (Cons te tes)
  obtain now data where te: "te = (now, data)" by (cases te)
  let ?s = "addToBuffer now data s"
  let ?x = "stamped now data"
  let ?rest = "map (\<lambda>(now, data). stamped now data) tes"
  have m: "maxBufferSize ?s = 1000"
    using Cons.prems by (simp add: addToBuffer_capacity)
  have l: "length (buffer ?s) \<le> 1000"
    using Cons.prems addToBuffer_length [of s now data] by simp
  have b: "buffer ?s = drop (length (buffer s) + 1 - 1000) (buffer s @ [?x])"
    using Cons.prems by (rule addToBuffer_drop)
  have "buffer (append_all (te # tes) s) = buffer (append_all tes ?s)"
    by (simp add: append_all_def te)
  also have "\<dots> = drop (length (buffer ?s) + length tes - 1000) (buffer ?s @ ?rest)"
    using m l by (rule Cons.IH)
  also have "\<dots> = drop (length (buffer s) + length (te # tes) - 1000) (buffer s @ ?x # ?rest)"
  proof (cases "length (buffer s) = 1000")
    case True
    then have "buffer ?s = tl (buffer s) @ [?x]" "buffer s \<noteq> []"
      using b by (cases "buffer s"; simp)+
    then show ?thesis
      using True by (cases "buffer s") simp_all
  next
    case False
    then have "buffer ?s = buffer s @ [?x]"
      using b Cons.prems by simp
    then show ?thesis by simp
  qed
  finally show ?case by (simp add: te)
qed

lemma reachable_bound:
  "maxBufferSize (svc (fold (perform h) ops fresh)) = 1000 \<and>
   length (buffer (svc (fold (perform h) ops fresh))) \<le> 1000"
  using kept_fold [OF kept_bound, of fresh h ops] by (simp add: fresh_def constructor_def)

lemma first_evicted:
  assumes len: "length tes = 1001"
    and dis: "distinct (map snd tes)"
    and obj: "list_all event_object (map snd tes)"
  shows "buffer (append_all tes constructor) = map (\<lambda>(now, data). stamped now data) (tl tes)"
    and "stamped now (snd (hd tes)) \<notin> set (buffer (append_all tes constructor))"
proof -
  have "buffer (append_all tes constructor) =
      drop (length (buffer constructor) + length tes - 1000)
        (buffer constructor @ map (\<lambda>(now, data). stamped now data) tes)"
    by (rule append_all_buffer) (simp_all add: constructor_def)
  then show b: "buffer (append_all tes constructor) = map (\<lambda>(now, data). stamped now data) (tl tes)"
    using len by (simp add: constructor_def drop_Suc map_tl)
  obtain te rest where tes: "tes = te # rest"
    using len by (cases tes) simp_all
  show "stamped now (snd (hd tes)) \<notin> set (buffer (append_all tes constructor))"
  proof
    assume "stamped now (snd (hd tes)) \<in> set (buffer (append_all tes constructor))"
    then obtain t d where td: "(t, d) \<in> set rest" and eq: "stamped now (snd te) = stamped t d"
      using b tes by auto
    have "event_object (snd te)" "event_object d"
      using obj td tes by (auto simp: list_all_iff)
    then have "snd te = d"
      using eq by (rule stamped_inj)
    then have "snd te \<in> set (map snd rest)"
      using td by (auto simp: image_iff intro!: bexI [of _ "(t, d)"])
    then show False
      using dis tes by simp
  qed
qed

text \<open>
  Claim C4. The buffer of a new service never holds more than 1000 entries, whatever
  operations run; \<^verbatim>\<open>addToBuffer\<close> keeps the bound, appends at the end, and when the buffer
  is full removes exactly the oldest entry. After appending 1001 pairwise different events to a
  new service, the buffer holds the entries of the last 1000 in append order, and no entry of
  the first event.
\<close>

theorem buffer_bounded_fifo:
  "maxBufferSize (svc (fold (perform h) ops fresh)) = 1000 \<and>
   length (buffer (svc (fold (perform h) ops fresh))) \<le> 1000 \<and>
   (maxBufferSize s = 1000 \<and> length (buffer s) \<le> 1000 \<longrightarrow>
      maxBufferSize (addToBuffer now data s) = 1000 \<and>
      length (buffer (addToBuffer now data s)) \<le> 1000 \<and>
      buffer (addToBuffer now data s) =
        (if length (buffer s) = 1000 then tl (buffer s) @ [stamped now data]
         else buffer s @ [stamped now data])) \<and>
   (length tes = 1001 \<and> distinct (map snd tes) \<and> list_all event_object (map snd tes) \<longrightarrow>
      buffer (append_all tes constructor) = map (\<lambda>(now, data). stamped now data) (tl tes) \<and>
      (\<forall>t. stamped t (snd (hd tes)) \<notin> set (buffer (append_all tes constructor))))"
proof -
  have step: "maxBufferSize s = 1000 \<and> length (buffer s) \<le> 1000 \<longrightarrow>
      maxBufferSize (addToBuffer now data s) = 1000 \<and>
      length (buffer (addToBuffer now data s)) \<le> 1000 \<and>
      buffer (addToBuffer now data s) =
        (if length (buffer s) = 1000 then tl (buffer s) @ [stamped now data]
         else buffer s @ [stamped now data])"
    using addToBuffer_capacity [of now data s] addToBuffer_length [of s now data]
      addToBuffer_buffer [of s now data] by simp
  show ?thesis
    using reachable_bound [of h ops] step first_evicted [of tes] by blast
qed

text \<open>
  The events \<open>numbered 0\<close>, ..., \<open>numbered 1000\<close> are pairwise different; after appending
  them the buffer holds those of 1 to 1000, and the entry of \<open>numbered 0\<close> is gone.
\<close>

theorem buffer_bounded_fifo_witness:
  "maxBufferSize constructor = 1000 \<and> length (buffer constructor) \<le> 1000 \<and>
   length (map numbered [0..<1001]) = 1001 \<and>
   distinct (map snd (map numbered [0..<1001])) \<and>
   list_all event_object (map snd (map numbered [0..<1001])) \<and>
   buffer (addToBuffer ''1970-01-01T00:00:00.000Z'' JNull constructor)
     = [stamped ''1970-01-01T00:00:00.000Z'' JNull] \<and>
   buffer (append_all (map numbered [0..<1001]) constructor)
     = map (\<lambda>(now, data). stamped now data) (map numbered [1..<1001]) \<and>
   stamped ''1970-01-01T00:00:00.000Z'' (snd (numbered 0))
     \<notin> set (buffer (append_all (map numbered [0..<1001]) constructor))"
proof -
  have c: "maxBufferSize constructor = 1000 \<and> length (buffer constructor) \<le> 1000"
    by (simp add: constructor_def)
  have e: "buffer constructor = []"
    by (simp add: constructor_def)
  have l: "length (map numbered [0..<1001]) = 1001"
    by simp
  have "inj_on (snd \<circ> numbered) (set [0..<1001])"
  proof (rule inj_onI)
    fix i j
    assume "(snd \<circ> numbered) i = (snd \<circ> numbered) j"
    then have "length (replicate i CHR ''x'') = length (replicate j CHR ''x'')"
      by (simp add: numbered_def)
    then show "i = j" by simp
  qed
  then have d: "distinct (map snd (map numbered [0..<1001]))"
    by (simp add: distinct_map)
  have o: "list_all event_object (map snd (map numbered [0..<1001]))"
    by (simp add: list_all_iff numbered_def)
  have hd: "hd (map numbered [0..<1001]) = numbered 0"
    by (simp add: upt_conv_Cons)
  have tl: "tl (map numbered [0..<1001]) = map numbered [1..<1001]"
    by (simp add: upt_conv_Cons [of 0])
  note all = buffer_bounded_fifo [of wire_host "[]" constructor "''1970-01-01T00:00:00.000Z''"
      JNull "map numbered [0..<1001]"]
  from all c e have one: "buffer (addToBuffer ''1970-01-01T00:00:00.000Z'' JNull constructor)
     = [stamped ''1970-01-01T00:00:00.000Z'' JNull]"
    by simp
  from all l d o have many: "buffer (append_all (map numbered [0..<1001]) constructor)
     = map (\<lambda>(now, data). stamped now data) (tl (map numbered [0..<1001]))"
    and gone: "\<forall>t. stamped t (snd (hd (map numbered [0..<1001])))
       \<notin> set (buffer (append_all (map numbered [0..<1001]) constructor))"
    by blast+
  from gone have gone': "stamped ''1970-01-01T00:00:00.000Z'' (snd (numbered 0))
     \<notin> set (buffer (append_all (map numbered [0..<1001]) constructor))"
    unfolding hd by blast
  from many have many': "buffer (append_all (map numbered [0..<1001]) constructor)
     = map (\<lambda>(now, data). stamped now data) (map numbered [1..<1001])"
    unfolding tl .
  from c l d o one many' gone' show ?thesis
    by blast
qed

section \<open>Splitting chunks into lines\<close>

lemma split_nl_line: "CHR 0x0A \<notin> set l \<Longrightarrow> split_nl (l @ CHR 0x0A # rest) = l # split_nl rest"
  by (induction l) auto

lemma split_nl_plain: "CHR 0x0A \<notin> set l \<Longrightarrow> split_nl l = [l]"
  by (induction l) auto

lemma split_nl_whole_lines:
  "\<forall>l\<in>set ls. CHR 0x0A \<notin> set l \<Longrightarrow> split_nl (whole_lines ls) = ls @ [[]]"
  by (induction ls) (simp_all add: whole_lines_def split_nl_line)

lemma split_nl_no_newline: "l \<in> set (split_nl s) \<Longrightarrow> CHR 0x0A \<notin> set l"
proof (induction s arbitrary: l)
  case Nil
  then show ?case by simp
next
  case (Cons c cs)
  then show ?case
    by (cases "split_nl cs") (auto split: if_splits)
qed

lemma split_nl_join_nl:
  "ls \<noteq> [] \<Longrightarrow> \<forall>l\<in>set ls. CHR 0x0A \<notin> set l \<Longrightarrow> split_nl (join_nl ls) = ls"
proof (induction ls rule: join_nl.induct)
  case 1
  then show ?case by simp
next
  case (2 l)
  then show ?case by (simp add: split_nl_plain)
next
  case (3 l v va)
  then show ?case by (simp add: split_nl_line)
qed

section \<open>The line loop\<close>

lemma on_line_empty: "on_line h [] st = Continue st"
  by (simp add: on_line_def startsWith_def)

lemma for_lines_append:
  "for_lines h (xs @ ys) st =
     (case for_lines h xs st of Continue st' \<Rightarrow> for_lines h ys st' | Return st' \<Rightarrow> Return st')"
  by (induction xs arbitrary: st) (auto split: flow.splits)

lemma for_lines_whole:
  "\<forall>l\<in>set ls. CHR 0x0A \<notin> set l \<Longrightarrow>
     for_lines h (split_nl (whole_lines ls)) st = for_lines h ls st"
  by (simp add: split_nl_whole_lines for_lines_append on_line_empty split: flow.splits)

lemma read_loop_whole:
  "\<forall>l\<in>set (concat groups). CHR 0x0A \<notin> set l \<Longrightarrow>
     read_loop h (map whole_lines groups) e st =
       (case for_lines h (concat groups) st of
          Continue st' \<Rightarrow> read_loop h [] e st'
        | Return st' \<Rightarrow> st')"
proof (induction groups arbitrary: st)
  case Nil
  then show ?case by simp
next
  case (Cons g groups)
  then have g: "\<forall>l\<in>set g. CHR 0x0A \<notin> set l"
    and rest: "\<forall>l\<in>set (concat groups). CHR 0x0A \<notin> set l"
    by simp_all
  show ?case
    by (cases "for_lines h g st")
      (simp_all add: for_lines_whole [OF g] for_lines_append Cons.IH [OF rest])
qed

lemma on_line_quiet:
  "\<not> observes_terminal h line \<Longrightarrow>
     \<exists>st'. on_line h line st = Continue st' \<and>
           effects st' = effects st @ map onMessage (content_of h line)"
  by (auto simp: observes_terminal_def event_of_def terminal_def content_of_def payload_def
      on_line_def Let_def emit_def this_addToBuffer_def js_get_nullish split: option.splits)

lemma for_lines_quiet:
  "\<forall>line\<in>set lines. \<not> observes_terminal h line \<Longrightarrow>
     \<exists>st'. for_lines h lines st = Continue st' \<and>
           effects st' = effects st @ map onMessage (concat (map (content_of h) lines))"
proof (induction lines arbitrary: st)
  case Nil
  then show ?case by simp
next
  case (Cons line lines)
  then have "\<not> observes_terminal h line" by simp
  from on_line_quiet [OF this, of st]
  obtain st1 where 1: "on_line h line st = Continue st1"
    and e1: "effects st1 = effects st @ map onMessage (content_of h line)"
    by blast
  from Cons have "\<forall>line\<in>set lines. \<not> observes_terminal h line" by simp
  from Cons.IH [OF this, of st1]
  obtain st2 where 2: "for_lines h lines st1 = Continue st2"
    and e2: "effects st2 = effects st1 @ map onMessage (concat (map (content_of h) lines))"
    by blast
  show ?case
    using 1 2 e1 e2 by simp
qed

lemma read_loop_quiet:
  "\<forall>chunk\<in>set chunks. \<forall>line\<in>set (split_nl chunk). \<not> observes_terminal h line \<Longrightarrow>
     effects (read_loop h chunks Done st) =
       effects st @ map onMessage (concat (map (content_of h) (concat (map split_nl chunks))))
         @ [onComplete (JStr [])]"
proof (induction chunks arbitrary: st)
  case Nil
  then show ?case by (simp add: emit_def)
next
  case (Cons chunk chunks)
  then have "\<forall>line\<in>set (split_nl chunk). \<not> observes_terminal h line" by simp
  from for_lines_quiet [OF this, of st]
  obtain st1 where 1: "for_lines h (split_nl chunk) st = Continue st1"
    and e1: "effects st1 = effects st @ map onMessage (concat (map (content_of h) (split_nl chunk)))"
    by blast
  from Cons have "\<forall>chunk\<in>set chunks. \<forall>line\<in>set (split_nl chunk). \<not> observes_terminal h line"
    by simp
  from Cons.IH [OF this, of st1] 1 e1 show ?case by simp
qed

section \<open>End of the stream without a terminal event\<close>

text \<open>
  Claim C2. When the response is successful, the reader ends with its \<^verbatim>\<open>done\<close> signal,
  and no line the loop parses carries a \<^verbatim>\<open>done\<close> or \<^verbatim>\<open>error\<close> event, then
  \<^verbatim>\<open>startSSEStream\<close> issues its request, calls \<^verbatim>\<open>onMessage\<close> for the content
  events in order, and finally calls \<^verbatim>\<open>onComplete\<close> with the empty string: once, and
  nothing after it.
\<close>

theorem stream_end_completes_once:
  "ok status \<Longrightarrow>
   \<forall>chunk\<in>set chunks. \<forall>line\<in>set (split_nl chunk). \<not> observes_terminal h line \<Longrightarrow>
     effects (startSSEStream h (Resolved status (Reader chunks Done)) st) =
       effects st @ fetch #
         map onMessage (concat (map (content_of h) (concat (map split_nl chunks))))
         @ [onComplete (JStr [])]"
  by (simp add: startSSEStream_def read_loop_quiet emit_def)

text \<open>
  Two chunks with two content events and a line that is no data line, then the end of the
  stream.
\<close>

theorem stream_end_completes_once_witness:
  \<open>ok 200 \<and>
   effects (startSSEStream wire_host
      (Resolved 200 (Reader [framed ''{"type":"content","data":"Hel"}'' @ ''event: ping'',
                             framed ''{"type":"content","data":"lo"}''] Done)) fresh)
     = [fetch, onMessage (JStr ''Hel''), onMessage (JStr ''lo''), onComplete (JStr [])]\<close>
proof -
  let ?chunks = \<open>[framed ''{"type":"content","data":"Hel"}'' @ ''event: ping'',
                  framed ''{"type":"content","data":"lo"}'']\<close>
  have 1: "ok 200"
    by (simp add: ok_def)
  have 2: "\<forall>chunk\<in>set ?chunks. \<forall>line\<in>set (split_nl chunk). \<not> observes_terminal wire_host line"
    by (simp add: framed_def observes_terminal_def event_of_def terminal_def wire_host_def
        wire_parse_def strip_prefix_def startsWith_def plain_def)
  have 3: "concat (map (content_of wire_host) (concat (map split_nl ?chunks)))
      = [JStr ''Hel'', JStr ''lo'']"
    by (simp add: framed_def content_of_def event_of_def payload_def wire_host_def
        wire_parse_def strip_prefix_def startsWith_def plain_def)
  show ?thesis
    using 1 stream_end_completes_once [OF 1 2, of fresh]
    by (simp only: 3) (simp add: fresh_def)
qed

section \<open>A stream that ends in a done event\<close>

lemma on_line_done:
  "event_of h line = Some e \<Longrightarrow> js_get e ''type'' = JStr ''done'' \<Longrightarrow>
     \<exists>st'. on_line h line st = Return st' \<and>
           effects st' = effects st @ [onComplete (js_get e ''data'')]"
  by (cases e)
    (auto simp: event_of_def on_line_def Let_def emit_def this_addToBuffer_def split: if_splits)

lemma event_of_data: "event_of h (data_line t) = JSON_parse h t"
  by (simp add: event_of_def startsWith_def data_line_def)

lemma payload_filter:
  "concat (map payload es) =
     map (\<lambda>e. js_get e ''data'') (filter (\<lambda>e. js_get e ''type'' = JStr ''content'') es)"
  by (induction es) (simp_all add: payload_def)

lemma quiet_events:
  "map (JSON_parse h) ts = map Some es \<Longrightarrow> \<forall>e\<in>set es. \<not> terminal e \<Longrightarrow>
     (\<forall>line\<in>set (map data_line ts). \<not> observes_terminal h line) \<and>
     concat (map (content_of h) (map data_line ts)) = concat (map payload es)"
proof (induction ts arbitrary: es)
  case Nil
  then show ?case by simp
next
  case (Cons t ts)
  then obtain e es' where es: "es = e # es'" by (cases es) auto
  with Cons.prems have t: "JSON_parse h t = Some e" and ts: "map (JSON_parse h) ts = map Some es'"
    and e: "\<not> terminal e" and es': "\<forall>e\<in>set es'. \<not> terminal e"
    by simp_all
  from Cons.IH [OF ts es'] t e show ?case
    by (simp add: es observes_terminal_def content_of_def event_of_data)
qed

lemma for_lines_events_done:
  assumes parse: "map (JSON_parse h) ts = map Some (pre @ [fin])"
    and pre: "\<forall>e\<in>set pre. \<not> terminal e"
    and fin: "js_get fin ''type'' = JStr ''done''"
  shows "\<exists>st'. for_lines h (map data_line ts) st = Return st' \<and>
           effects st' = effects st @ map onMessage (concat (map payload pre))
             @ [onComplete (js_get fin ''data'')]"
proof -
  from parse have "length (map (JSON_parse h) ts) = length (map Some (pre @ [fin]))"
    by simp
  then have len: "length ts = length pre + 1"
    by simp
  then obtain ts' t where ts: "ts = ts' @ [t]"
    by (cases ts rule: rev_cases) simp_all
  with parse len have p': "map (JSON_parse h) ts' = map Some pre" and t: "JSON_parse h t = Some fin"
    by simp_all
  from quiet_events [OF p' pre]
  have q: "\<forall>line\<in>set (map data_line ts'). \<not> observes_terminal h line"
    and c: "concat (map (content_of h) (map data_line ts')) = concat (map payload pre)"
    by simp_all
  from for_lines_quiet [OF q, of st]
  obtain st1 where 1: "for_lines h (map data_line ts') st = Continue st1"
    and e1: "effects st1 = effects st @ map onMessage (concat (map payload pre))"
    using c by auto
  have "event_of h (data_line t) = Some fin"
    using t by (simp add: event_of_data)
  from on_line_done [OF this fin, of st1]
  obtain st2 where 2: "on_line h (data_line t) st1 = Return st2"
    and e2: "effects st2 = effects st1 @ [onComplete (js_get fin ''data'')]"
    by blast
  show ?thesis
    using 1 2 e1 e2 by (simp add: ts for_lines_append)
qed

text \<open>
  Claim C1, as the code has it. Let a successful response deliver data lines whole (every
  chunk is a run of newline-terminated lines), let every line parse to an event, let the last
  event be a \<^verbatim>\<open>done\<close> event and let no event before it be a \<^verbatim>\<open>done\<close> or
  \<^verbatim>\<open>error\<close> event. Then \<^verbatim>\<open>startSSEStream\<close> issues its request, calls
  \<^verbatim>\<open>onMessage\<close> once for each content event, in order and with its data, and then calls
  \<^verbatim>\<open>onComplete\<close> once with the data of the \<^verbatim>\<open>done\<close> event; nothing follows.
\<close>

theorem done_completes_once:
  assumes "ok status"
    and "concat groups = map data_line ts"
    and "\<forall>t\<in>set ts. CHR 0x0A \<notin> set t"
    and "map (JSON_parse h) ts = map Some (pre @ [fin])"
    and "\<forall>e\<in>set pre. \<not> terminal e"
    and "js_get fin ''type'' = JStr ''done''"
  shows "effects (startSSEStream h (Resolved status (Reader (map whole_lines groups) e)) st) =
           effects st @ fetch #
             map onMessage
               (map (\<lambda>e. js_get e ''data'')
                  (filter (\<lambda>e. js_get e ''type'' = JStr ''content'') pre))
             @ [onComplete (js_get fin ''data'')]"
proof -
  have nl: "\<forall>l\<in>set (concat groups). CHR 0x0A \<notin> set l"
    using assms(2,3) by (auto simp: data_line_def)
  from for_lines_events_done [OF assms(4,5,6), of "emit fetch st"]
  obtain st' where r: "for_lines h (concat groups) (emit fetch st) = Return st'"
    and e: "effects st' = effects (emit fetch st) @ map onMessage (concat (map payload pre))
             @ [onComplete (js_get fin ''data'')]"
    using assms(2) by auto
  show ?thesis
    using assms(1) r e
    by (simp add: startSSEStream_def read_loop_whole [OF nl] emit_def payload_filter)
qed

text \<open>
  Two content events and a \<^verbatim>\<open>done\<close> event in two chunks: \<^verbatim>\<open>onMessage("Hel")\<close>,
  \<^verbatim>\<open>onMessage("lo")\<close>, \<^verbatim>\<open>onComplete("")\<close>.
\<close>

theorem done_completes_once_witness:
  \<open>ok 200 \<and>
   map (JSON_parse wire_host)
     [''{"type":"content","data":"Hel"}'', ''{"type":"content","data":"lo"}'',
      ''{"type":"done","data":""}'']
     = map Some
        ([JObj [(''type'', JStr ''content''), (''data'', JStr ''Hel'')],
          JObj [(''type'', JStr ''content''), (''data'', JStr ''lo'')]] @
         [JObj [(''type'', JStr ''done''), (''data'', JStr [])]]) \<and>
   effects (startSSEStream wire_host
      (Resolved 200 (Reader (map whole_lines
         [[data_line ''{"type":"content","data":"Hel"}'',
           data_line ''{"type":"content","data":"lo"}''],
          [data_line ''{"type":"done","data":""}'']]) Done)) fresh)
     = [fetch, onMessage (JStr ''Hel''), onMessage (JStr ''lo''), onComplete (JStr [])]\<close>
proof -
  let ?ts = \<open>[''{"type":"content","data":"Hel"}'', ''{"type":"content","data":"lo"}'',
      ''{"type":"done","data":""}'']\<close>
  let ?pre = "[JObj [(''type'', JStr ''content''), (''data'', JStr ''Hel'')],
          JObj [(''type'', JStr ''content''), (''data'', JStr ''lo'')]]"
  let ?fin = "JObj [(''type'', JStr ''done''), (''data'', JStr [])]"
  let ?groups = \<open>[[data_line ''{"type":"content","data":"Hel"}'',
           data_line ''{"type":"content","data":"lo"}''],
          [data_line ''{"type":"done","data":""}'']]\<close>
  have 1: "ok 200"
    by (simp add: ok_def)
  have 2: "concat ?groups = map data_line ?ts"
    by simp
  have 3: "\<forall>t\<in>set ?ts. CHR 0x0A \<notin> set t"
    by simp
  have 4: "map (JSON_parse wire_host) ?ts = map Some (?pre @ [?fin])"
    by (simp add: wire_host_def wire_parse_def strip_prefix_def startsWith_def plain_def)
  have 5: "\<forall>e\<in>set ?pre. \<not> terminal e"
    by (simp add: terminal_def)
  have 6: "js_get ?fin ''type'' = JStr ''done''"
    by simp
  have "effects (startSSEStream wire_host (Resolved 200 (Reader (map whole_lines ?groups) Done)) fresh)
     = effects fresh @ fetch #
         map onMessage
           (map (\<lambda>e. js_get e ''data'')
              (filter (\<lambda>e. js_get e ''type'' = JStr ''content'') ?pre))
         @ [onComplete (js_get ?fin ''data'')]"
    using 1 2 3 4 5 6 by (rule done_completes_once)
  then show ?thesis
    using 1 4 by (simp add: fresh_def)
qed

text \<open>
  Claim C1 as stated does not hold of every sequence of valid event lines that ends in a
  \<^verbatim>\<open>done\<close> event. An \<^verbatim>\<open>error\<close> event before it ends the stream, and
  \<^verbatim>\<open>onComplete\<close> is never called. And when a chunk boundary cuts the
  \<^verbatim>\<open>done\<close> line, the event is not parsed, and \<^verbatim>\<open>onComplete\<close> is called at the
  end of the stream with the empty string instead of the payload.
\<close>

theorem done_completes_once_counterexample:
  \<open>effects (startSSEStream wire_host
      (Resolved 200 (Reader [framed ''{"type":"error","data":"boom"}'' @
                             framed ''{"type":"done","data":"bye"}''] Done)) fresh)
     = [fetch, onError (JStr ''boom'')] \<and>
   onComplete (JStr ''bye'') \<notin> set (effects (startSSEStream wire_host
      (Resolved 200 (Reader [framed ''{"type":"error","data":"boom"}'' @
                             framed ''{"type":"done","data":"bye"}''] Done)) fresh)) \<and>
   concat [''data: {"type":"do'', ''ne","data":"bye"}'' @ [CHR 0x0A]]
     = framed ''{"type":"done","data":"bye"}'' \<and>
   effects (startSSEStream wire_host
      (Resolved 200 (Reader [''data: {"type":"do'', ''ne","data":"bye"}'' @ [CHR 0x0A]] Done))
      fresh)
     = [fetch, onComplete (JStr [])]\<close>
  by (simp add: wire_eval)

section \<open>Chunk boundaries\<close>

lemma whole_lines_concat: "whole_lines (concat groups) = concat (map whole_lines groups)"
  by (induction groups) (simp_all add: whole_lines_def)

lemma whole_lines_inj:
  assumes "whole_lines ls = whole_lines ls'"
    and "\<forall>l\<in>set ls. CHR 0x0A \<notin> set l"
    and "\<forall>l\<in>set ls'. CHR 0x0A \<notin> set l"
  shows "ls = ls'"
proof -
  have "ls @ [[]] = split_nl (whole_lines ls)"
    using assms(2) by (simp add: split_nl_whole_lines)
  also have "\<dots> = ls' @ [[]]"
    using assms(1,3) by (simp add: split_nl_whole_lines)
  finally show ?thesis by simp
qed

text \<open>
  Claim C3, as the code has it. Every chunk is split into lines on its own. When two
  deliveries of the same text both cut it only at line ends (every chunk is a run of whole
  newline-terminated lines), the two runs of \<^verbatim>\<open>startSSEStream\<close> end in the same
  state: the same events buffered, the same callbacks in the same order.
\<close>

theorem aligned_chunkings_agree:
  assumes "concat (map whole_lines groups) = concat (map whole_lines groups')"
    and "\<forall>l\<in>set (concat groups). CHR 0x0A \<notin> set l"
    and "\<forall>l\<in>set (concat groups'). CHR 0x0A \<notin> set l"
  shows "startSSEStream h (Resolved status (Reader (map whole_lines groups) e)) st
       = startSSEStream h (Resolved status (Reader (map whole_lines groups') e)) st"
proof -
  have "whole_lines (concat groups) = whole_lines (concat groups')"
    using assms(1) by (simp add: whole_lines_concat)
  then have "concat groups = concat groups'"
    using assms(2,3) by (rule whole_lines_inj)
  then show ?thesis
    using assms(2,3) by (simp add: startSSEStream_def Let_def read_loop_whole)
qed

text \<open>Three lines delivered as one chunk, and as a chunk of one line and a chunk of two.\<close>

theorem aligned_chunkings_agree_witness:
  \<open>concat (map whole_lines
      [[data_line ''{"type":"content","data":"Hel"}''],
       [data_line ''{"type":"content","data":"lo"}'', data_line ''{"type":"done","data":""}'']])
     = concat (map whole_lines
      [[data_line ''{"type":"content","data":"Hel"}'',
        data_line ''{"type":"content","data":"lo"}'', data_line ''{"type":"done","data":""}'']]) \<and>
   startSSEStream wire_host (Resolved 200 (Reader (map whole_lines
      [[data_line ''{"type":"content","data":"Hel"}''],
       [data_line ''{"type":"content","data":"lo"}'', data_line ''{"type":"done","data":""}'']])
      Done)) fresh
     = startSSEStream wire_host (Resolved 200 (Reader (map whole_lines
      [[data_line ''{"type":"content","data":"Hel"}'',
        data_line ''{"type":"content","data":"lo"}'', data_line ''{"type":"done","data":""}'']])
      Done)) fresh \<and>
   effects (startSSEStream wire_host (Resolved 200 (Reader (map whole_lines
      [[data_line ''{"type":"content","data":"Hel"}'',
        data_line ''{"type":"content","data":"lo"}'', data_line ''{"type":"done","data":""}'']])
      Done)) fresh)
     = [fetch, onMessage (JStr ''Hel''), onMessage (JStr ''lo''), onComplete (JStr [])]\<close>
proof -
  let ?a = \<open>[[data_line ''{"type":"content","data":"Hel"}''],
       [data_line ''{"type":"content","data":"lo"}'', data_line ''{"type":"done","data":""}'']]\<close>
  let ?b = \<open>[[data_line ''{"type":"content","data":"Hel"}'',
        data_line ''{"type":"content","data":"lo"}'', data_line ''{"type":"done","data":""}'']]\<close>
  have 1: "concat (map whole_lines ?a) = concat (map whole_lines ?b)"
    by (simp add: whole_lines_def)
  have 2: "\<forall>l\<in>set (concat ?a). CHR 0x0A \<notin> set l"
    by (simp add: data_line_def)
  have 3: "\<forall>l\<in>set (concat ?b). CHR 0x0A \<notin> set l"
    by (simp add: data_line_def)
  have 4: "effects (startSSEStream wire_host (Resolved 200 (Reader (map whole_lines ?b) Done)) fresh)
     = [fetch, onMessage (JStr ''Hel''), onMessage (JStr ''lo''), onComplete (JStr [])]"
    by (simp add: wire_eval whole_lines_def data_line_def)
  from 1 4 aligned_chunkings_agree [OF 1 2 3, of wire_host 200 Done fresh]
  show ?thesis
    by simp
qed

text \<open>
  Claim C3 as stated does not hold: the code keeps no partial line from one chunk to the
  next, so a chunk boundary inside a line loses the event. The same text delivered whole yields
  \<^verbatim>\<open>onMessage("hi")\<close> and one buffered event; delivered in two chunks it yields
  neither.
\<close>

theorem chunking_counterexample:
  \<open>concat [''data: {"type":"con'', ''tent","data":"hi"}'' @ [CHR 0x0A]]
     = concat [framed ''{"type":"content","data":"hi"}''] \<and>
   effects (startSSEStream wire_host
      (Resolved 200 (Reader [framed ''{"type":"content","data":"hi"}''] Done)) fresh)
     = [fetch, onMessage (JStr ''hi''), onComplete (JStr [])] \<and>
   length (buffer (svc (startSSEStream wire_host
      (Resolved 200 (Reader [framed ''{"type":"content","data":"hi"}''] Done)) fresh))) = 1 \<and>
   effects (startSSEStream wire_host
      (Resolved 200 (Reader [''data: {"type":"con'', ''tent","data":"hi"}'' @ [CHR 0x0A]] Done))
      fresh)
     = [fetch, onComplete (JStr [])] \<and>
   buffer (svc (startSSEStream wire_host
      (Resolved 200 (Reader [''data: {"type":"con'', ''tent","data":"hi"}'' @ [CHR 0x0A]] Done))
      fresh))
     = []\<close>
  by (simp add: wire_eval)

section \<open>Malformed lines and frames\<close>

lemma on_line_malformed: "malformed h line \<Longrightarrow> on_line h line st = Continue st"
  by (simp add: malformed_def on_line_def)

lemma for_lines_filter_malformed:
  "for_lines h (filter (\<lambda>l. \<not> malformed h l) lines) st = for_lines h lines st"
  by (induction lines arbitrary: st) (auto simp: on_line_malformed split: flow.splits)

lemma for_lines_without_malformed:
  "for_lines h (split_nl (without_malformed h chunk)) st = for_lines h (split_nl chunk) st"
proof (cases "filter (\<lambda>l. \<not> malformed h l) (split_nl chunk) = []")
  case True
  then have "for_lines h (split_nl (without_malformed h chunk)) st = Continue st"
    by (simp add: without_malformed_def on_line_empty)
  also have "\<dots> = for_lines h (filter (\<lambda>l. \<not> malformed h l) (split_nl chunk)) st"
    using True by simp
  finally show ?thesis
    by (simp add: for_lines_filter_malformed)
next
  case False
  have "\<forall>l\<in>set (filter (\<lambda>l. \<not> malformed h l) (split_nl chunk)). CHR 0x0A \<notin> set l"
    by (auto dest: split_nl_no_newline)
  with False have "split_nl (without_malformed h chunk)
      = filter (\<lambda>l. \<not> malformed h l) (split_nl chunk)"
    unfolding without_malformed_def by (rule split_nl_join_nl)
  then show ?thesis
    by (simp add: for_lines_filter_malformed)
qed

lemma read_loop_without_malformed:
  "read_loop h (map (without_malformed h) chunks) e st = read_loop h chunks e st"
  by (induction chunks arbitrary: st) (simp_all add: for_lines_without_malformed split: flow.splits)

lemma onmessage_malformed: "JSON_parse h frame = None \<Longrightarrow> onmessage h frame st = st"
  by (simp add: onmessage_def)

lemma fold_onmessage_filter:
  "fold (onmessage h) (filter (\<lambda>f. JSON_parse h f \<noteq> None) frames) st = fold (onmessage h) frames st"
  by (induction frames arbitrary: st) (auto simp: onmessage_malformed)

text \<open>
  Claim C8. A data line that fails to parse leaves the loop running and changes nothing: no
  callback, no buffer entry. A whole SSE run is the same as the run on the chunks with their
  malformed lines removed. A WebSocket frame that fails to parse changes nothing either, and a
  sequence of frames is handled as the sequence without its malformed frames.
\<close>

theorem malformed_dropped:
  "(malformed h line \<longrightarrow> on_line h line st = Continue st) \<and>
   startSSEStream h (Resolved status (Reader (map (without_malformed h) chunks) e)) st
     = startSSEStream h (Resolved status (Reader chunks e)) st \<and>
   (JSON_parse h frame = None \<longrightarrow> onmessage h frame st = st) \<and>
   fold (onmessage h) (filter (\<lambda>f. JSON_parse h f \<noteq> None) frames) st
     = fold (onmessage h) frames st"
proof (intro conjI)
  show "malformed h line \<longrightarrow> on_line h line st = Continue st"
    by (simp add: on_line_malformed)
  show "startSSEStream h (Resolved status (Reader (map (without_malformed h) chunks) e)) st
     = startSSEStream h (Resolved status (Reader chunks e)) st"
    by (simp add: startSSEStream_def Let_def read_loop_without_malformed)
  show "JSON_parse h frame = None \<longrightarrow> onmessage h frame st = st"
    by (simp add: onmessage_malformed)
  show "fold (onmessage h) (filter (\<lambda>f. JSON_parse h f \<noteq> None) frames) st
     = fold (onmessage h) frames st"
    by (rule fold_onmessage_filter)
qed

text \<open>
  A truncated object between a content event and a \<^verbatim>\<open>done\<close> event, on both
  transports.
\<close>

theorem malformed_dropped_witness:
  \<open>malformed wire_host ''data: {"type":'' \<and>
   on_line wire_host ''data: {"type":'' fresh = Continue fresh \<and>
   without_malformed wire_host
     (framed ''{"type":"content","data":"Hel"}'' @ framed ''{"type":'' @
      framed ''{"type":"done","data":"bye"}'')
     = framed ''{"type":"content","data":"Hel"}'' @ framed ''{"type":"done","data":"bye"}'' \<and>
   effects (startSSEStream wire_host (Resolved 200 (Reader
     [framed ''{"type":"content","data":"Hel"}'' @ framed ''{"type":'' @
      framed ''{"type":"done","data":"bye"}''] Done)) fresh)
     = [fetch, onMessage (JStr ''Hel''), onComplete (JStr ''bye'')] \<and>
   JSON_parse wire_host ''{"type":'' = None \<and>
   onmessage wire_host ''{"type":'' fresh = fresh \<and>
   effects (fold (onmessage wire_host)
     [''{"type":"content","data":"Hel"}'', ''{"type":'', ''{"type":"content","data":"lo"}''] fresh)
     = [onMessage (JStr ''Hel''), onMessage (JStr ''lo'')]\<close>
proof -
  let ?bad = \<open>''{"type":''\<close>
  let ?chunk = \<open>framed ''{"type":"content","data":"Hel"}'' @ framed ''{"type":'' @
      framed ''{"type":"done","data":"bye"}''\<close>
  let ?frames = \<open>[''{"type":"content","data":"Hel"}'', ''{"type":'',
      ''{"type":"content","data":"lo"}'']\<close>
  have m: "malformed wire_host (''data: '' @ ?bad)"
    by (simp add: malformed_def wire_host_def wire_parse_def strip_prefix_def startsWith_def)
  have p: "JSON_parse wire_host ?bad = None"
    by (simp add: wire_host_def wire_parse_def strip_prefix_def startsWith_def)
  have w: \<open>without_malformed wire_host ?chunk
      = framed ''{"type":"content","data":"Hel"}'' @ framed ''{"type":"done","data":"bye"}''\<close>
    by (simp add: without_malformed_def malformed_def framed_def wire_host_def wire_parse_def
        strip_prefix_def startsWith_def plain_def)
  have f: \<open>filter (\<lambda>f. JSON_parse wire_host f \<noteq> None) ?frames
      = [''{"type":"content","data":"Hel"}'', ''{"type":"content","data":"lo"}'']\<close>
    by (simp add: wire_host_def wire_parse_def strip_prefix_def startsWith_def plain_def)
  note all = malformed_dropped [of wire_host "''data: '' @ ?bad" fresh 200 "[?chunk]" Done ?bad ?frames]
  from all m have 1: "on_line wire_host (''data: '' @ ?bad) fresh = Continue fresh"
    by blast
  from all have "startSSEStream wire_host (Resolved 200 (Reader [?chunk] Done)) fresh
      = startSSEStream wire_host
          (Resolved 200 (Reader (map (without_malformed wire_host) [?chunk]) Done)) fresh"
    by simp
  then have 2: "effects (startSSEStream wire_host (Resolved 200 (Reader [?chunk] Done)) fresh)
      = [fetch, onMessage (JStr ''Hel''), onComplete (JStr ''bye'')]"
    by (simp only: list.map w) (simp add: wire_eval)
  from all p have 3: "onmessage wire_host ?bad fresh = fresh"
    by blast
  from all have "fold (onmessage wire_host) ?frames fresh
      = fold (onmessage wire_host) (filter (\<lambda>f. JSON_parse wire_host f \<noteq> None) ?frames) fresh"
    by simp
  then have 4: "effects (fold (onmessage wire_host) ?frames fresh)
      = [onMessage (JStr ''Hel''), onMessage (JStr ''lo'')]"
    by (simp only: f) (simp add: wire_eval)
  from m 1 w 2 p 3 4 show ?thesis
    by simp
qed

section \<open>Error events on the WebSocket\<close>

text \<open>
  Claim C6. An \<^verbatim>\<open>error\<close> event is terminal on both transports. On the SSE stream it is:
  the loop returns and a later line is not read. The WebSocket handler only calls
  \<^verbatim>\<open>onError\<close>: the socket stays open and recorded, a later frame is still delivered,
  and when the socket closes a reconnect is scheduled that opens the next socket.
\<close>

theorem websocket_error_not_terminal:
  \<open>effects (fold (onmessage wire_host)
      [''{"type":"error","data":"boom"}'', ''{"type":"content","data":"late"}'']
      (startWebSocketStream (Inr 0) fresh))
     = [WebSocket_new 0, onError (JStr ''boom''), onMessage (JStr ''late'')] \<and>
   websocket (svc (fold (onmessage wire_host)
      [''{"type":"error","data":"boom"}'', ''{"type":"content","data":"late"}'']
      (startWebSocketStream (Inr 0) fresh))) = Some 0 \<and>
   effects (timeout_handler wire_host (Rejected ''offline'') (Inr 1)
      (onclose (onmessage wire_host ''{"type":"error","data":"boom"}''
         (startWebSocketStream (Inr 0) fresh))))
     = [WebSocket_new 0, onError (JStr ''boom''), setTimeout 2000, WebSocket_new 1] \<and>
   effects (startSSEStream wire_host
      (Resolved 200 (Reader [framed ''{"type":"error","data":"boom"}'',
                             framed ''{"type":"content","data":"late"}''] Done)) fresh)
     = [fetch, onError (JStr ''boom'')]\<close>
  by (simp add: wire_eval onclose_def reconnect_def timeout_handler_def)

end
